theory Spec2Isabelle
  imports Complex_Main
begin

section \<open>Python values shared by the services\<close>

text \<open>
  The exceptions that the modelled code raises itself or receives from the libraries it
  calls. \<open>ValueError\<close> is the only one the services raise explicitly (the empty input
  list); \<open>IndexError\<close> comes from indexing a sequence out of range;
  \<open>FileNotFoundError\<close>, \<open>UnidentifiedImageError\<close> (PIL) and \<open>PdfReadError\<close> (PyPDF2)
  come from opening a path; \<open>PermissionError\<close> from \<open>os.remove\<close> and \<open>os.listdir\<close>.
\<close>

datatype py_error =
    ValueError
  | IndexError
  | FileNotFoundError
  | UnidentifiedImageError
  | PdfReadError
  | PermissionError

text \<open>
  Subscripting a Python sequence, \<open>xs[i]\<close>: positions \<open>0\<close> to \<open>len(xs) - 1\<close> read
  from the front, positions \<open>-len(xs)\<close> to \<open>-1\<close> read from the back, and any other
  position raises \<open>IndexError\<close>.
\<close>

definition getitem :: "'a list \<Rightarrow> int \<Rightarrow> py_error + 'a" where
  "getitem xs i =
     (if 0 \<le> i \<and> i < int (length xs) then Inr (xs ! nat i)
      else if i < 0 \<and> - int (length xs) \<le> i then Inr (xs ! nat (int (length xs) + i))
      else Inl IndexError)"

text \<open>\<open>range(a, b)\<close> over Python integers: \<open>a, a + 1, ..., b - 1\<close>, empty when \<open>b \<le> a\<close>.\<close>

definition py_range :: "int \<Rightarrow> int \<Rightarrow> int list" where
  "py_range a b = [a..b - 1]"

section \<open>File admission: \<open>DocumentConverter.allowed_file\<close>\<close>

definition ALLOWED_IMAGE_EXTENSIONS :: "string set" where
  "ALLOWED_IMAGE_EXTENSIONS = {''png'', ''jpg'', ''jpeg''}"

definition ALLOWED_PDF_EXTENSIONS :: "string set" where
  "ALLOWED_PDF_EXTENSIONS = {''pdf''}"

text \<open>
  \<open>str.lower\<close> on the byte strings of the model: each of the letters \<open>A\<close> to \<open>Z\<close>
  moves to its lower-case letter, every other character stays.
\<close>

definition lower_char :: "char \<Rightarrow> char" where
  "lower_char c =
     (case map_of (zip ''ABCDEFGHIJKLMNOPQRSTUVWXYZ'' ''abcdefghijklmnopqrstuvwxyz'') c of
        None \<Rightarrow> c
      | Some l \<Rightarrow> l)"

definition lower :: "string \<Rightarrow> string" where
  "lower s = map lower_char s"

text \<open>
  \<open>s.rsplit(sep, 1)\<close> for a one-character separator: the string is scanned from its
  right end; at the first separator met it is cut in two, and a string without a
  separator comes back whole, as a one-element list.
\<close>

definition rsplit1 :: "string \<Rightarrow> char \<Rightarrow> string list" where
  "rsplit1 s sep =
     (let r = rev s; right = takeWhile (\<lambda>c. c \<noteq> sep) r
      in case dropWhile (\<lambda>c. c \<noteq> sep) r of
           [] \<Rightarrow> [s]
         | _ # left \<Rightarrow> [rev left, rev right])"

definition allowed_file :: "string \<Rightarrow> string \<Rightarrow> py_error + bool" where
  "allowed_file filename file_type =
     (if CHR ''.'' \<notin> set filename then Inr False
      else case getitem (rsplit1 filename CHR ''.'') 1 of
             Inl e \<Rightarrow> Inl e
           | Inr part \<Rightarrow>
               let ext = lower part
               in if file_type = ''image'' then Inr (ext \<in> ALLOWED_IMAGE_EXTENSIONS)
                  else if file_type = ''pdf'' then Inr (ext \<in> ALLOWED_PDF_EXTENSIONS)
                  else Inr (ext \<in> ALLOWED_IMAGE_EXTENSIONS \<union> ALLOWED_PDF_EXTENSIONS))"

section \<open>The storage area and the document libraries\<close>

text \<open>
  Images are the values PIL hands to the converter. A file decodes to a \<open>Bitmap\<close> with
  its mode (\<open>img.mode\<close>, a string such as \<open>RGB\<close>, \<open>RGBA\<close>, \<open>LA\<close>, \<open>P\<close>, \<open>L\<close>), its size
  and its samples. The other constructors are the PIL calls the converter makes, kept
  as they were called: \<open>Image.new(mode, size, color)\<close>, \<open>canvas.paste(img, mask=m)\<close>
  (the canvas after the paste), \<open>img.convert(mode)\<close> and \<open>img.split()[-1]\<close>.
\<close>

datatype image =
    Bitmap string "nat \<times> nat" "nat list"
  | New string "nat \<times> nat" "nat \<times> nat \<times> nat"
  | Paste image image "image option"
  | Convert image string
  | LastBand image



text \<open>
  A PDF is its sequence of pages. A page is either content carried over from a parsed
  document, or an image placed on a page by PIL's PDF writer at a given resolution.
\<close>

datatype page = Page string | ImagePage image nat

datatype stored_file = PdfFile "page list" | ImageFile image | OtherFile string

text \<open>The storage area, and any other place a path can name: a map from paths to files.\<close>

type_synonym storage = "string \<rightharpoonup> stored_file"

text \<open>
  \<open>os.path.join(a, b)\<close> on POSIX: an absolute \<open>b\<close> replaces \<open>a\<close>; otherwise \<open>b\<close> follows
  \<open>a\<close>, with a \<open>/\<close> between them unless \<open>a\<close> is empty or already ends with one.
\<close>

definition os_path_join :: "string \<Rightarrow> string \<Rightarrow> string" where
  "os_path_join a b =
     (if b \<noteq> [] \<and> hd b = CHR ''/'' then b
      else if a = [] \<or> last a = CHR ''/'' then a @ b
      else a @ ''/'' @ b)"


text \<open>
  \<open>PdfReader(path).pages\<close>, which \<open>PdfMerger.append(path)\<close> reads too: a missing file
  raises \<open>FileNotFoundError\<close>, a file that is not a PDF raises PyPDF2's \<open>PdfReadError\<close>.
\<close>

definition PdfReader :: "storage \<Rightarrow> string \<Rightarrow> py_error + page list" where
  "PdfReader fs path =
     (case fs path of
        None \<Rightarrow> Inl FileNotFoundError
      | Some (PdfFile pages) \<Rightarrow> Inr pages
      | Some _ \<Rightarrow> Inl PdfReadError)"


section \<open>The conversion pipeline: \<open>DocumentConverter\<close>\<close>

text \<open>
  Every operation takes the storage and gives back its result with the storage after
  the call: \<open>Inl\<close> is the exception that left the method, \<open>Inr\<close> the value returned.
  \<open>upload_folder\<close> is the field set by the constructor.
\<close>

subsection \<open>\<open>images_to_pdf\<close>\<close>




subsection \<open>\<open>merge_pdfs\<close>\<close>

text \<open>The \<open>for pdf_path in pdf_paths: merger.append(pdf_path)\<close> loop; the merger is its pages.\<close>

fun append_pdfs :: "storage \<Rightarrow> string list \<Rightarrow> page list \<Rightarrow> py_error + page list" where
  "append_pdfs fs [] merger = Inr merger"
| "append_pdfs fs (pdf_path # rest) merger =
     (case PdfReader fs pdf_path of
        Inl e \<Rightarrow> Inl e
      | Inr pages \<Rightarrow> append_pdfs fs rest (merger @ pages))"

definition merge_pdfs ::
  "string \<Rightarrow> storage \<Rightarrow> string list \<Rightarrow> string \<Rightarrow> (py_error + string) \<times> storage" where
  "merge_pdfs upload_folder fs pdf_paths output_filename =
     (if pdf_paths = [] then (Inl ValueError, fs)
      else case append_pdfs fs pdf_paths [] of
             Inl e \<Rightarrow> (Inl e, fs)
           | Inr merger \<Rightarrow>
               let output_path = os_path_join upload_folder output_filename
               in (Inr output_path, fs(output_path \<mapsto> PdfFile merger)))"

subsection \<open>\<open>split_pdf\<close>\<close>

text \<open>
  The defaults and the two clamps of \<open>split_pdf\<close>: from the document's page count and
  the two optional page parameters to the \<open>start_page\<close> and \<open>end_page\<close> the loop uses.
\<close>

definition split_range :: "int \<Rightarrow> int option \<Rightarrow> int option \<Rightarrow> int \<times> int" where
  "split_range total_pages start_page end_page =
     (let start_page = (case start_page of None \<Rightarrow> 1 | Some s \<Rightarrow> s);
          end_page = (case end_page of None \<Rightarrow> total_pages | Some e \<Rightarrow> e);
          start_page = max 1 (min start_page total_pages);
          end_page = max start_page (min end_page total_pages)
      in (start_page, end_page))"

text \<open>The \<open>for page_num in range(...): writer.add_page(reader.pages[page_num])\<close> loop.\<close>

fun add_pages :: "page list \<Rightarrow> int list \<Rightarrow> page list \<Rightarrow> py_error + page list" where
  "add_pages reader_pages [] writer = Inr writer"
| "add_pages reader_pages (page_num # rest) writer =
     (case getitem reader_pages page_num of
        Inl e \<Rightarrow> Inl e
      | Inr p \<Rightarrow> add_pages reader_pages rest (writer @ [p]))"

definition split_pdf ::
  "string \<Rightarrow> storage \<Rightarrow> string \<Rightarrow> int option \<Rightarrow> int option \<Rightarrow> string \<Rightarrow>
     (py_error + string) \<times> storage" where
  "split_pdf upload_folder fs pdf_path start_page end_page output_filename =
     (case PdfReader fs pdf_path of
        Inl e \<Rightarrow> (Inl e, fs)
      | Inr reader_pages \<Rightarrow>
          let total_pages = int (length reader_pages);
              (start_page, end_page) = split_range total_pages start_page end_page
          in case add_pages reader_pages (py_range (start_page - 1) end_page) [] of
               Inl e \<Rightarrow> (Inl e, fs)
             | Inr writer \<Rightarrow>
                 let output_path = os_path_join upload_folder output_filename
                 in (Inr output_path, fs(output_path \<mapsto> PdfFile writer)))"

subsection \<open>\<open>get_pdf_info\<close>\<close>


record pdf_info =
  pages :: nat
  metadata :: "(string \<times> string) list"
  size_bytes :: nat
  size_mb :: rat


section \<open>The cleanup sweeper: \<open>FileCleanupService\<close>\<close>

text \<open>
  One entry of the swept folder, as the sweep reads it: the name \<open>os.listdir\<close> gives,
  \<open>os.path.isfile\<close> of its path, \<open>os.path.getmtime\<close> of its path (seconds, a real
  number here), and whether \<open>os.remove\<close> of its path succeeds; removal fails with
  \<open>PermissionError\<close> otherwise. \<open>isfile\<close> and \<open>getmtime\<close> read the same file status, so in
  one sequential sweep \<open>getmtime\<close> succeeds wherever \<open>isfile\<close> held.
\<close>

record entry =
  name :: string
  is_file :: bool
  mtime :: real
  removable :: bool

text \<open>
  The folder at \<open>folder_path\<close>: absent, present but not listable (\<open>os.listdir\<close> raises),
  or a directory with its entries in the order \<open>os.listdir\<close> returns them.
\<close>

datatype folder = Absent | Unlistable | Listing "entry list"

definition os_path_exists :: "folder \<Rightarrow> bool" where
  "os_path_exists d = (d \<noteq> Absent)"

definition os_listdir :: "folder \<Rightarrow> py_error + entry list" where
  "os_listdir d =
     (case d of
        Absent \<Rightarrow> Inl FileNotFoundError
      | Unlistable \<Rightarrow> Inl PermissionError
      | Listing es \<Rightarrow> Inr es)"

definition os_remove :: "entry \<Rightarrow> py_error + unit" where
  "os_remove e = (if removable e then Inr () else Inl PermissionError)"

record FileCleanupService =
  max_age_seconds :: real
  running :: bool

definition FileCleanupService_init :: "real \<Rightarrow> FileCleanupService" where
  "FileCleanupService_init max_age_minutes =
     \<lparr>max_age_seconds = max_age_minutes * 60, running = False\<rparr>"

text \<open>
  The \<open>for filename in os.listdir(...)\<close> loop. Its state is \<open>deleted_count\<close> and the
  entries that are still in the folder; the messages it prints are left out.
\<close>

fun sweep_loop ::
  "FileCleanupService \<Rightarrow> real \<Rightarrow> entry list \<Rightarrow> nat \<times> entry list \<Rightarrow> nat \<times> entry list" where
  "sweep_loop self current_time [] st = st"
| "sweep_loop self current_time (e # rest) (deleted_count, kept) =
     (if \<not> is_file e then sweep_loop self current_time rest (deleted_count, kept @ [e])
      else
        let file_age = current_time - mtime e
        in if file_age > max_age_seconds self then
             (case os_remove e of
                Inr _ \<Rightarrow> sweep_loop self current_time rest (deleted_count + 1, kept)
              | Inl _ \<Rightarrow> sweep_loop self current_time rest (deleted_count, kept @ [e]))
           else sweep_loop self current_time rest (deleted_count, kept @ [e]))"

text \<open>
  \<open>cleanup_old_files\<close>, given the value \<open>time.time()\<close> returns: the count it returns and
  the folder after the sweep. The outer \<open>try\<close> catches the failure of \<open>os.listdir\<close>, and
  the method returns the count reached so far, which is zero.
\<close>

definition cleanup_old_files :: "FileCleanupService \<Rightarrow> real \<Rightarrow> folder \<Rightarrow> nat \<times> folder" where
  "cleanup_old_files self current_time d =
     (if \<not> os_path_exists d then (0, d)
      else case os_listdir d of
             Inl _ \<Rightarrow> (0, d)
           | Inr listing \<Rightarrow>
               let (deleted_count, kept) = sweep_loop self current_time listing (0, [])
               in (deleted_count, Listing kept))"

text \<open>
  Two readings used to state the properties of a sweep: the entries of a folder, and
  whether the sweep finds an entry to be a regular file older than the threshold.
\<close>

definition entries :: "folder \<Rightarrow> entry list" where
  "entries d = (case d of Listing es \<Rightarrow> es | _ \<Rightarrow> [])"

definition expired :: "FileCleanupService \<Rightarrow> real \<Rightarrow> entry \<Rightarrow> bool" where
  "expired self current_time e =
     (is_file e \<and> current_time - mtime e > max_age_seconds self)"

section \<open>Properties of file admission\<close>

lemma rsplit1_no_sep: "sep \<notin> set s \<Longrightarrow> rsplit1 s sep = [s]"
proof -
  assume "sep \<notin> set s"
  then have "dropWhile (\<lambda>c. c \<noteq> sep) (rev s) = []"
    by auto
  then show ?thesis
    unfolding rsplit1_def Let_def by (simp only: list.case)
qed

lemma rsplit1_cut:
  assumes "sep \<notin> set ext"
  shows "rsplit1 (stem @ sep # ext) sep = [stem, ext]"
proof -
  have all: "\<forall>c\<in>set (rev ext). c \<noteq> sep"
    using assms by auto
  have tw: "takeWhile (\<lambda>c. c \<noteq> sep) (rev ext @ sep # rev stem) = rev ext"
    by (subst takeWhile_append2) (use all in auto)
  have dw: "dropWhile (\<lambda>c. c \<noteq> sep) (rev ext @ sep # rev stem) = sep # rev stem"
    by (subst dropWhile_append2) (use all in auto)
  show ?thesis
    unfolding rsplit1_def Let_def by (simp only: rev_append rev.simps append.simps append_assoc tw dw list.case rev_rev_ident)
qed

lemma last_sep_exists:
  "sep \<in> set s \<Longrightarrow> \<exists>stem ext. s = stem @ sep # ext \<and> sep \<notin> set ext"
  by (rule split_list_last)

lemma last_sep_unique:
  fixes sep :: char
  assumes "stem @ sep # ext = stem' @ sep # ext'" "sep \<notin> set ext" "sep \<notin> set ext'"
  shows "ext = ext'"
proof -
  have "rsplit1 (stem @ sep # ext) sep = rsplit1 (stem' @ sep # ext') sep"
    using assms(1) by simp
  then show ?thesis
    using assms(2,3) by (simp add: rsplit1_cut)
qed

lemma allowed_file_cut:
  assumes "CHR ''.'' \<notin> set ext"
  shows "allowed_file (stem @ CHR ''.'' # ext) file_type =
           Inr (lower ext \<in> (if file_type = ''image'' then ALLOWED_IMAGE_EXTENSIONS
                              else if file_type = ''pdf'' then ALLOWED_PDF_EXTENSIONS
                              else ALLOWED_IMAGE_EXTENSIONS \<union> ALLOWED_PDF_EXTENSIONS))"
  using assms by (simp add: allowed_file_def rsplit1_cut getitem_def Let_def)

lemma allowed_file_no_dot:
  "CHR ''.'' \<notin> set filename \<Longrightarrow> allowed_file filename file_type = Inr False"
  by (simp add: allowed_file_def)

lemma allowed_file_kind:
  "allowed_file filename file_type =
     Inr (\<exists>stem ext. filename = stem @ CHR ''.'' # ext \<and> CHR ''.'' \<notin> set ext \<and>
            lower ext \<in> (if file_type = ''image'' then ALLOWED_IMAGE_EXTENSIONS
                          else if file_type = ''pdf'' then ALLOWED_PDF_EXTENSIONS
                          else ALLOWED_IMAGE_EXTENSIONS \<union> ALLOWED_PDF_EXTENSIONS))"
proof -
  let ?allow = "if file_type = ''image'' then ALLOWED_IMAGE_EXTENSIONS
                else if file_type = ''pdf'' then ALLOWED_PDF_EXTENSIONS
                else ALLOWED_IMAGE_EXTENSIONS \<union> ALLOWED_PDF_EXTENSIONS"
  let ?rhs = "\<exists>stem ext. filename = stem @ CHR ''.'' # ext \<and> CHR ''.'' \<notin> set ext \<and>
                lower ext \<in> ?allow"
  show "allowed_file filename file_type = Inr ?rhs"
  proof (cases "CHR ''.'' \<in> set filename")
    case False
    then have l: "allowed_file filename file_type = Inr False"
      by (rule allowed_file_no_dot)
    from False have r: "?rhs = False"
      by auto
    show ?thesis
      by (simp only: l r)
  next
    case True
    then obtain stem ext where
      cut: "filename = stem @ CHR ''.'' # ext" "CHR ''.'' \<notin> set ext"
      using last_sep_exists [of "CHR ''.''" filename] by blast
    have same: "ext' = ext"
      if "filename = stem' @ CHR ''.'' # ext'" "CHR ''.'' \<notin> set ext'" for stem' ext'
      using last_sep_unique [of stem' "CHR ''.''" ext' stem ext] that cut by simp
    have "(lower ext \<in> ?allow) = ?rhs"
    proof
      assume "lower ext \<in> ?allow"
      with cut show ?rhs
        by blast
    next
      assume ?rhs
      then obtain stem' ext' where
        c': "filename = stem' @ CHR ''.'' # ext'" "CHR ''.'' \<notin> set ext'" and
        a': "lower ext' \<in> ?allow"
        by blast
      from same [OF c'] a' show "lower ext \<in> ?allow"
        by simp
    qed
    moreover have "allowed_file filename file_type = Inr (lower ext \<in> ?allow)"
      unfolding cut(1) by (rule allowed_file_cut [OF cut(2)])
    ultimately show ?thesis
      by (simp only:)
  qed
qed

text \<open>
  C6. For every file name and kind, \<open>allowed_file\<close> returns false when the name has no
  \<open>'.'\<close>; for kind \<open>image\<close> it returns true exactly when the name has a \<open>'.'\<close> and the
  lower-cased text after the last \<open>'.'\<close> is one of png, jpg, jpeg; for kind \<open>pdf\<close>
  exactly when that text is pdf. It never raises. An upper-case extension outside
  the allow-set, such as \<open>.EXE\<close> for kind \<open>image\<close>, is rejected.
\<close>

theorem allowed_file_last_extension:
  "(CHR ''.'' \<notin> set filename \<longrightarrow> allowed_file filename file_type = Inr False) \<and>
   allowed_file filename ''image'' =
     Inr (\<exists>stem ext. filename = stem @ CHR ''.'' # ext \<and> CHR ''.'' \<notin> set ext \<and>
            lower ext \<in> {''png'', ''jpg'', ''jpeg''}) \<and>
   allowed_file filename ''pdf'' =
     Inr (\<exists>stem ext. filename = stem @ CHR ''.'' # ext \<and> CHR ''.'' \<notin> set ext \<and>
            lower ext \<in> {''pdf''}) \<and>
   allowed_file (stem @ ''.EXE'') ''image'' = Inr False"
proof -
  have exe: "allowed_file (stem @ ''.EXE'') ''image'' = Inr False"
    using allowed_file_cut [of "''EXE''" stem "''image''"]
    by (simp add: ALLOWED_IMAGE_EXTENSIONS_def lower_def lower_char_def)
  have img: "allowed_file filename ''image'' =
     Inr (\<exists>stem ext. filename = stem @ CHR ''.'' # ext \<and> CHR ''.'' \<notin> set ext \<and>
            lower ext \<in> {''png'', ''jpg'', ''jpeg''})"
    using allowed_file_kind [of filename "''image''"]
    by (simp add: ALLOWED_IMAGE_EXTENSIONS_def)
  have pdf: "allowed_file filename ''pdf'' =
     Inr (\<exists>stem ext. filename = stem @ CHR ''.'' # ext \<and> CHR ''.'' \<notin> set ext \<and>
            lower ext \<in> {''pdf''})"
    using allowed_file_kind [of filename "''pdf''"]
    by (simp add: ALLOWED_PDF_EXTENSIONS_def)
  from exe img pdf allowed_file_no_dot [of filename file_type] show ?thesis
    by blast
qed

theorem allowed_file_last_extension_witness:
  "allowed_file ''README'' ''image'' = Inr False \<and>
   allowed_file ''photo.JPG'' ''image'' = Inr True \<and>
   allowed_file ''notes.tar.Pdf'' ''pdf'' = Inr True \<and>
   allowed_file ''photo.JPG'' ''pdf'' = Inr False"
proof -
  have a: "allowed_file ''README'' ''image'' = Inr False"
    using allowed_file_last_extension [of "''README''" "''image''" "[]"] by simp
  have "''photo.JPG'' = ''photo'' @ CHR ''.'' # ''JPG'' \<and> CHR ''.'' \<notin> set ''JPG'' \<and>
      lower ''JPG'' \<in> {''png'', ''jpg'', ''jpeg''}"
    by (simp add: lower_def lower_char_def)
  then have jpg: "\<exists>stem ext. ''photo.JPG'' = stem @ CHR ''.'' # ext \<and> CHR ''.'' \<notin> set ext \<and>
      lower ext \<in> {''png'', ''jpg'', ''jpeg''}"
    by (intro exI)
  have b: "allowed_file ''photo.JPG'' ''image'' = Inr True"
    using allowed_file_last_extension [of "''photo.JPG''" "''image''" "[]"]
    by (simp only: jpg)
  have "''notes.tar.Pdf'' = ''notes.tar'' @ CHR ''.'' # ''Pdf'' \<and> CHR ''.'' \<notin> set ''Pdf'' \<and>
      lower ''Pdf'' \<in> {''pdf''}"
    by (simp add: lower_def lower_char_def)
  then have pdf: "\<exists>stem ext. ''notes.tar.Pdf'' = stem @ CHR ''.'' # ext \<and>
      CHR ''.'' \<notin> set ext \<and> lower ext \<in> {''pdf''}"
    by (intro exI)
  have c: "allowed_file ''notes.tar.Pdf'' ''pdf'' = Inr True"
    using allowed_file_last_extension [of "''notes.tar.Pdf''" "''pdf''" "[]"]
    by (simp only: pdf)
  have d: "allowed_file ''photo.JPG'' ''pdf'' = Inr False"
    by (simp add: allowed_file_def rsplit1_def getitem_def lower_def lower_char_def
        ALLOWED_PDF_EXTENSIONS_def)
  from a b c d show ?thesis by simp
qed

section \<open>Properties of the conversion pipeline\<close>

subsection \<open>Merging and image conversion\<close>

lemma append_pdfs_all_parsed:
  "map fs pdf_paths = map (\<lambda>d. Some (PdfFile d)) docs \<Longrightarrow>
     append_pdfs fs pdf_paths merger = Inr (merger @ concat docs)"
proof (induction pdf_paths arbitrary: docs merger)
  case Nil
  then show ?case by simp
next
  case (Cons p ps)
  from Cons.prems obtain d ds where
    docs: "docs = d # ds" and p: "fs p = Some (PdfFile d)" and
    ps: "map fs ps = map (\<lambda>d. Some (PdfFile d)) ds"
    by (cases docs) auto
  show ?case
    by (simp add: docs p PdfReader_def Cons.IH [OF ps])
qed







text \<open>
  C2. For every non-empty list of paths that all hold PDF documents, \<open>merge_pdfs\<close>
  succeeds, returns the output path, and stores there a document whose pages are the
  pages of the inputs concatenated in input order, each document's pages in their own
  order; its page count is the sum of the inputs' page counts.
\<close>

theorem merge_pdfs_concatenates:
  assumes "pdf_paths \<noteq> []"
    and "map fs pdf_paths = map (\<lambda>d. Some (PdfFile d)) docs"
  shows "merge_pdfs up fs pdf_paths out =
           (Inr (os_path_join up out), fs(os_path_join up out \<mapsto> PdfFile (concat docs))) \<and>
         length (concat docs) = sum_list (map length docs)"
proof -
  have "append_pdfs fs pdf_paths [] = Inr (concat docs)"
    using append_pdfs_all_parsed [OF assms(2), of "[]"] by simp
  with assms(1) show ?thesis
    by (simp add: merge_pdfs_def Let_def length_concat)
qed

text \<open>
  The scenario of the specification: three documents of 2, 3 and 1 pages merge into one
  of 6 pages, in document order.
\<close>

theorem merge_pdfs_concatenates_witness:
  "merge_pdfs ''uploads''
     [''uploads/a.pdf'' \<mapsto> PdfFile [Page ''a1'', Page ''a2''],
      ''uploads/b.pdf'' \<mapsto> PdfFile [Page ''b1'', Page ''b2'', Page ''b3''],
      ''uploads/c.pdf'' \<mapsto> PdfFile [Page ''c1'']]
     [''uploads/a.pdf'', ''uploads/b.pdf'', ''uploads/c.pdf''] ''merged.pdf'' =
     (Inr ''uploads/merged.pdf'',
      [''uploads/a.pdf'' \<mapsto> PdfFile [Page ''a1'', Page ''a2''],
       ''uploads/b.pdf'' \<mapsto> PdfFile [Page ''b1'', Page ''b2'', Page ''b3''],
       ''uploads/c.pdf'' \<mapsto> PdfFile [Page ''c1''],
       ''uploads/merged.pdf'' \<mapsto>
         PdfFile [Page ''a1'', Page ''a2'', Page ''b1'', Page ''b2'', Page ''b3'', Page ''c1'']]) \<and>
   length (concat [[Page ''a1'', Page ''a2''], [Page ''b1'', Page ''b2'', Page ''b3''],
                   [Page ''c1'']]) = 6"
  using merge_pdfs_concatenates [of
      "[''uploads/a.pdf'', ''uploads/b.pdf'', ''uploads/c.pdf'']"
      "[''uploads/a.pdf'' \<mapsto> PdfFile [Page ''a1'', Page ''a2''],
        ''uploads/b.pdf'' \<mapsto> PdfFile [Page ''b1'', Page ''b2'', Page ''b3''],
        ''uploads/c.pdf'' \<mapsto> PdfFile [Page ''c1'']]"
      "[[Page ''a1'', Page ''a2''], [Page ''b1'', Page ''b2'', Page ''b3''], [Page ''c1'']]"
      "''uploads''" "''merged.pdf''"]
  by (simp add: os_path_join_def)



subsection \<open>Failures and the files an operation touches\<close>














subsection \<open>Page ranges of \<open>split_pdf\<close>\<close>

lemma py_range_rec: "py_range a b = (if a < b then a # py_range (a + 1) b else [])"
  by (simp add: py_range_def upto_rec1)

lemma split_range_bounds:
  "1 \<le> total_pages \<Longrightarrow> split_range total_pages s e = (s', e') \<Longrightarrow>
     1 \<le> s' \<and> s' \<le> e' \<and> e' \<le> total_pages"
  by (auto simp add: split_range_def Let_def split: option.splits)

lemma split_range_zero: "split_range 0 s e = (1, 1)"
  by (simp add: split_range_def Let_def split: option.splits)

lemma py_range_bounds: "i \<in> set (py_range a b) \<Longrightarrow> a \<le> i \<and> i < b"
  by (simp add: py_range_def)

lemma getitem_in_bounds:
  "0 \<le> i \<Longrightarrow> i < int (length xs) \<Longrightarrow> getitem xs i = Inr (xs ! nat i)"
  by (simp add: getitem_def)

lemma add_pages_slice:
  "0 \<le> a \<Longrightarrow> a \<le> b \<Longrightarrow> b \<le> int (length pgs) \<Longrightarrow>
     add_pages pgs (py_range a b) w = Inr (w @ take (nat (b - a)) (drop (nat a) pgs))"
proof (induction "nat (b - a)" arbitrary: a w)
  case 0
  then have "a = b"
    by simp
  then show ?case
    by (simp add: py_range_def)
next
  case (Suc n)
  then have lt: "a < b" and n: "n = nat (b - (a + 1))"
    by simp_all
  have range: "py_range a b = a # py_range (a + 1) b"
    using lt py_range_rec [of a b] by simp
  have item: "getitem pgs a = Inr (pgs ! nat a)"
    using Suc.prems lt by (simp add: getitem_in_bounds)
  have rest: "add_pages pgs (py_range (a + 1) b) (w @ [pgs ! nat a]) =
      Inr ((w @ [pgs ! nat a]) @ take (nat (b - (a + 1))) (drop (nat (a + 1)) pgs))"
    using Suc.hyps(1) [OF n] Suc.prems lt by simp
  have len: "nat a < length pgs"
    using Suc.prems lt by simp
  have count: "nat (b - a) = Suc (nat (b - (a + 1)))" and next_a: "nat (a + 1) = Suc (nat a)"
    using Suc.prems lt by simp_all
  have "take (nat (b - a)) (drop (nat a) pgs) =
      pgs ! nat a # take (nat (b - (a + 1))) (drop (nat (a + 1)) pgs)"
    unfolding count next_a Cons_nth_drop_Suc [OF len, symmetric] by simp
  then show ?case
    by (simp add: range item rest)
qed

lemma split_pdf_non_empty:
  assumes "fs pdf_path = Some (PdfFile pgs)" and "pgs \<noteq> []"
    and "split_range (int (length pgs)) s e = (s', e')"
  shows "split_pdf up fs pdf_path s e out =
           (Inr (os_path_join up out),
            fs(os_path_join up out \<mapsto>
               PdfFile (take (nat (e' - s' + 1)) (drop (nat (s' - 1)) pgs))))"
proof -
  from assms(2) have "1 \<le> int (length pgs)"
    by (cases pgs) simp_all
  from split_range_bounds [OF this assms(3)]
  have b: "1 \<le> s'" "s' \<le> e'" "e' \<le> int (length pgs)"
    by simp_all
  then have "add_pages pgs (py_range (s' - 1) e') [] =
      Inr ([] @ take (nat (e' - (s' - 1))) (drop (nat (s' - 1)) pgs))"
    by (intro add_pages_slice) simp_all
  moreover have "e' - (s' - 1) = e' - s' + 1"
    by simp
  ultimately have "add_pages pgs (py_range (s' - 1) e') [] =
      Inr (take (nat (e' - s' + 1)) (drop (nat (s' - 1)) pgs))"
    by simp
  then show ?thesis
    by (simp add: split_pdf_def PdfReader_def assms(1,3) Let_def)
qed

lemma split_pdf_empty:
  assumes "fs pdf_path = Some (PdfFile [])"
  shows "split_pdf up fs pdf_path s e out = (Inl IndexError, fs)"
  by (simp add: split_pdf_def PdfReader_def assms split_range_zero py_range_def getitem_def)

text \<open>
  C1. On a document without pages the clamps give \<open>start_page = end_page = 1\<close>, the
  loop reads page index 0, and \<open>split_pdf\<close> raises \<open>IndexError\<close> instead of narrowing the
  request: the evaluation of the code at the failing input.
\<close>

theorem split_pdf_zero_pages_range_raises:
  "split_pdf ''uploads'' [''uploads/empty.pdf'' \<mapsto> PdfFile []] ''uploads/empty.pdf''
     (Some 1) (Some 1) ''split.pdf'' =
     (Inl IndexError, [''uploads/empty.pdf'' \<mapsto> PdfFile []])"
  by (simp add: split_pdf_empty)

text \<open>
  C7. On a document without pages \<open>split_pdf\<close> with both page parameters absent raises
  \<open>IndexError\<close> instead of writing a copy without pages: the evaluation of the code at
  the failing input.
\<close>

theorem split_pdf_zero_pages_defaults_raise:
  "split_pdf ''uploads'' [''uploads/empty.pdf'' \<mapsto> PdfFile []] ''uploads/empty.pdf''
     None None ''split.pdf'' =
     (Inl IndexError, [''uploads/empty.pdf'' \<mapsto> PdfFile []])"
  by (simp add: split_pdf_empty)

text \<open>
  C10. For a document with at least one page, every page index the loop of \<open>split_pdf\<close>
  reads lies in \<open>[0, total_pages)\<close>, the lookup of each returns a page, and the call
  succeeds. For a document without pages the clamps give \<open>start_page = end_page = 1\<close>,
  the loop reads index 0, the lookup raises \<open>IndexError\<close>, and so does the call.
\<close>

theorem split_pdf_indices_in_bounds:
  "(pgs \<noteq> [] \<longrightarrow>
      (\<forall>i \<in> set (py_range (fst (split_range (int (length pgs)) s e) - 1)
                           (snd (split_range (int (length pgs)) s e))).
          0 \<le> i \<and> i < int (length pgs) \<and> getitem pgs i = Inr (pgs ! nat i)) \<and>
      (fs pdf_path = Some (PdfFile pgs) \<longrightarrow>
         fst (split_pdf up fs pdf_path s e out) = Inr (os_path_join up out))) \<and>
   split_range 0 s e = (1, 1) \<and>
   py_range (1 - 1) 1 = [0] \<and>
   getitem ([] :: page list) 0 = Inl IndexError \<and>
   (fs pdf_path = Some (PdfFile []) \<longrightarrow>
      split_pdf up fs pdf_path s e out = (Inl IndexError, fs))"
proof -
  have in_bounds: "0 \<le> i \<and> i < int (length pgs) \<and> getitem pgs i = Inr (pgs ! nat i)"
    if ne: "pgs \<noteq> []"
      and i: "i \<in> set (py_range (fst (split_range (int (length pgs)) s e) - 1)
                                (snd (split_range (int (length pgs)) s e)))"
    for i
  proof -
    obtain s' e' where r: "split_range (int (length pgs)) s e = (s', e')"
      by (cases "split_range (int (length pgs)) s e")
    from ne have "1 \<le> int (length pgs)"
      by (cases pgs) simp_all
    from split_range_bounds [OF this r] py_range_bounds [OF i]
    have "0 \<le> i" "i < int (length pgs)"
      by (simp_all add: r)
    then show ?thesis
      by (simp add: getitem_in_bounds)
  qed
  have succeeds: "fst (split_pdf up fs pdf_path s e out) = Inr (os_path_join up out)"
    if "pgs \<noteq> []" "fs pdf_path = Some (PdfFile pgs)"
  proof -
    obtain s' e' where r: "split_range (int (length pgs)) s e = (s', e')"
      by (cases "split_range (int (length pgs)) s e")
    from that(2,1) r
    have "split_pdf up fs pdf_path s e out =
        (Inr (os_path_join up out),
         fs(os_path_join up out \<mapsto>
            PdfFile (take (nat (e' - s' + 1)) (drop (nat (s' - 1)) pgs))))"
      by (rule split_pdf_non_empty)
    then show ?thesis
      by simp
  qed
  have empty: "py_range (1 - 1) 1 = [0]" "getitem ([] :: page list) 0 = Inl IndexError"
    by (simp_all add: py_range_def getitem_def)
  from in_bounds succeeds empty split_range_zero [of s e]
    split_pdf_empty [of fs pdf_path up s e out]
  show ?thesis
    by blast
qed

text \<open>
  The scenario of the specification, a ten-page document with the request (3, 20): the
  loop reads the indices 2 to 9 and the call succeeds; and a document without pages,
  where the same request raises.
\<close>

theorem split_pdf_indices_in_bounds_witness:
  "py_range (fst (split_range 10 (Some 3) (Some 20)) - 1)
            (snd (split_range 10 (Some 3) (Some 20))) = [2, 3, 4, 5, 6, 7, 8, 9] \<and>
   fst (split_pdf ''uploads''
          [''uploads/ten.pdf'' \<mapsto> PdfFile (map (\<lambda>c. Page [c]) ''0123456789'')]
          ''uploads/ten.pdf'' (Some 3) (Some 20) ''split.pdf'') = Inr ''uploads/split.pdf'' \<and>
   split_pdf ''uploads'' [''uploads/empty.pdf'' \<mapsto> PdfFile []] ''uploads/empty.pdf''
     (Some 3) (Some 20) ''split.pdf'' =
     (Inl IndexError, [''uploads/empty.pdf'' \<mapsto> PdfFile []])"
proof -
  have r: "py_range (fst (split_range 10 (Some 3) (Some 20)) - 1)
                    (snd (split_range 10 (Some 3) (Some 20))) = [2, 3, 4, 5, 6, 7, 8, 9]"
    by (simp add: split_range_def py_range_def upto_rec1)
  have ten: "fst (split_pdf ''uploads''
      [''uploads/ten.pdf'' \<mapsto> PdfFile (map (\<lambda>c. Page [c]) ''0123456789'')]
      ''uploads/ten.pdf'' (Some 3) (Some 20) ''split.pdf'') = Inr ''uploads/split.pdf''"
    using split_pdf_indices_in_bounds [of "map (\<lambda>c. Page [c]) ''0123456789''"
        "Some 3" "Some 20"
        "[''uploads/ten.pdf'' \<mapsto> PdfFile (map (\<lambda>c. Page [c]) ''0123456789'')]"
        "''uploads/ten.pdf''" "''uploads''" "''split.pdf''"]
    by (simp add: os_path_join_def)
  have none: "split_pdf ''uploads'' [''uploads/empty.pdf'' \<mapsto> PdfFile []]
      ''uploads/empty.pdf'' (Some 3) (Some 20) ''split.pdf'' =
      (Inl IndexError, [''uploads/empty.pdf'' \<mapsto> PdfFile []])"
    using split_pdf_indices_in_bounds [of "[]" "Some 3" "Some 20"
        "[''uploads/empty.pdf'' \<mapsto> PdfFile []]" "''uploads/empty.pdf''"
        "''uploads''" "''split.pdf''"]
    by simp
  from r ten none show ?thesis
    by (simp only: simp_thms)
qed

subsection \<open>What \<open>split_pdf\<close> extracts from a document that has pages\<close>

text \<open>
  For a document with at least one page and every requested range, \<open>split_pdf\<close> clamps
  the start into \<open>[1, total_pages]\<close>, the end into \<open>[start, total_pages]\<close>, succeeds, and
  stores the contiguous run of source pages from the clamped start to the clamped end;
  the page count is \<open>end - start + 1\<close>, and the clamped end is \<open>clamp(e, 1, total_pages)\<close>
  whenever that is at least the clamped start.
\<close>

theorem split_pdf_extracts_slice:
  assumes "fs pdf_path = Some (PdfFile pgs)" and "pgs \<noteq> []"
    and "split_range (int (length pgs)) s e = (s', e')"
  shows "s' = max 1 (min (case s of None \<Rightarrow> 1 | Some v \<Rightarrow> v) (int (length pgs))) \<and>
         e' = max s' (min (case e of None \<Rightarrow> int (length pgs) | Some v \<Rightarrow> v)
                          (int (length pgs))) \<and>
         split_pdf up fs pdf_path s e out =
           (Inr (os_path_join up out),
            fs(os_path_join up out \<mapsto>
               PdfFile (take (nat (e' - s' + 1)) (drop (nat (s' - 1)) pgs)))) \<and>
         int (length (take (nat (e' - s' + 1)) (drop (nat (s' - 1)) pgs))) = e' - s' + 1 \<and>
         (s' \<le> max 1 (min (case e of None \<Rightarrow> int (length pgs) | Some v \<Rightarrow> v)
                           (int (length pgs))) \<longrightarrow>
            e' = max 1 (min (case e of None \<Rightarrow> int (length pgs) | Some v \<Rightarrow> v)
                            (int (length pgs))))"
proof -
  from assms(2) have "1 \<le> int (length pgs)"
    by (cases pgs) simp_all
  from split_range_bounds [OF this assms(3)]
  have b: "1 \<le> s'" "s' \<le> e'" "e' \<le> int (length pgs)"
    by simp_all
  have clamps:
    "s' = max 1 (min (case s of None \<Rightarrow> 1 | Some v \<Rightarrow> v) (int (length pgs)))"
    "e' = max s' (min (case e of None \<Rightarrow> int (length pgs) | Some v \<Rightarrow> v)
                     (int (length pgs)))"
    using assms(3) by (auto simp add: split_range_def Let_def)
  have len: "int (length (take (nat (e' - s' + 1)) (drop (nat (s' - 1)) pgs))) = e' - s' + 1"
    using b by simp
  have same_end: "e' = max 1 (min (case e of None \<Rightarrow> int (length pgs) | Some v \<Rightarrow> v)
                                  (int (length pgs)))"
    if "s' \<le> max 1 (min (case e of None \<Rightarrow> int (length pgs) | Some v \<Rightarrow> v)
                         (int (length pgs)))"
    using that clamps(2) b(1) by linarith
  from assms have "split_pdf up fs pdf_path s e out =
      (Inr (os_path_join up out),
       fs(os_path_join up out \<mapsto>
          PdfFile (take (nat (e' - s' + 1)) (drop (nat (s' - 1)) pgs))))"
    by (rule split_pdf_non_empty)
  with clamps len same_end show ?thesis
    by blast
qed

text \<open>
  The scenario of the specification: a ten-page document and the request (3, 20) give
  the eight pages 3 to 10.
\<close>

theorem split_pdf_extracts_slice_witness:
  "split_pdf ''uploads''
     [''uploads/ten.pdf'' \<mapsto> PdfFile (map (\<lambda>c. Page [c]) ''0123456789'')]
     ''uploads/ten.pdf'' (Some 3) (Some 20) ''split.pdf'' =
     (Inr ''uploads/split.pdf'',
      [''uploads/ten.pdf'' \<mapsto> PdfFile (map (\<lambda>c. Page [c]) ''0123456789''),
       ''uploads/split.pdf'' \<mapsto> PdfFile (map (\<lambda>c. Page [c]) ''23456789'')])"
  using split_pdf_extracts_slice [where fs =
        "[''uploads/ten.pdf'' \<mapsto> PdfFile (map (\<lambda>c. Page [c]) ''0123456789'')]"
      and pdf_path = "''uploads/ten.pdf''" and pgs = "map (\<lambda>c. Page [c]) ''0123456789''"
      and s = "Some 3" and e = "Some 20" and s' = 3 and e' = 10
      and up = "''uploads''" and out = "''split.pdf''"]
  by (simp add: os_path_join_def split_range_def)

text \<open>
  For a document with at least one page, \<open>split_pdf\<close> with both page parameters absent
  stores a document with exactly the pages of the source, in their order.
\<close>

theorem split_pdf_defaults_copy:
  assumes "fs pdf_path = Some (PdfFile pgs)" and "pgs \<noteq> []"
  shows "split_pdf up fs pdf_path None None out =
           (Inr (os_path_join up out), fs(os_path_join up out \<mapsto> PdfFile pgs))"
proof -
  from assms(2) have "split_range (int (length pgs)) None None = (1, int (length pgs))"
    by (cases pgs) (simp_all add: split_range_def)
  with assms have "split_pdf up fs pdf_path None None out =
      (Inr (os_path_join up out),
       fs(os_path_join up out \<mapsto>
          PdfFile (take (nat (int (length pgs) - 1 + 1)) (drop (nat (1 - 1)) pgs))))"
    by (rule split_pdf_non_empty)
  then show ?thesis
    by simp
qed

theorem split_pdf_defaults_copy_witness:
  "split_pdf ''uploads'' [''uploads/in.pdf'' \<mapsto> PdfFile [Page ''p1'', Page ''p2'']]
     ''uploads/in.pdf'' None None ''split.pdf'' =
     (Inr ''uploads/split.pdf'',
      [''uploads/in.pdf'' \<mapsto> PdfFile [Page ''p1'', Page ''p2''],
       ''uploads/split.pdf'' \<mapsto> PdfFile [Page ''p1'', Page ''p2'']])"
  using split_pdf_defaults_copy [of
      "[''uploads/in.pdf'' \<mapsto> PdfFile [Page ''p1'', Page ''p2'']]" "''uploads/in.pdf''"
      "[Page ''p1'', Page ''p2'']" "''uploads''" "''split.pdf''"]
  by (simp add: os_path_join_def)

section \<open>Properties of the sweep\<close>

lemma sweep_loop_filter:
  "sweep_loop self t es (n, k) =
     (n + length [e\<leftarrow>es. expired self t e \<and> removable e],
      k @ [e\<leftarrow>es. \<not> (expired self t e \<and> removable e)])"
proof (induction es arbitrary: n k)
  case Nil
  show ?case by simp
next
  case (Cons e es)
  show ?case
  proof (cases "expired self t e \<and> removable e")
    case True
    then show ?thesis
      by (simp add: Cons.IH expired_def os_remove_def)
  next
    case False
    then show ?thesis
      by (auto simp add: Cons.IH expired_def os_remove_def)
  qed
qed

lemma cleanup_old_files_Listing:
  "cleanup_old_files self t (Listing es) =
     (length [e\<leftarrow>es. expired self t e \<and> removable e],
      Listing [e\<leftarrow>es. \<not> (expired self t e \<and> removable e)])"
  by (simp add: cleanup_old_files_def os_path_exists_def os_listdir_def sweep_loop_filter)

lemma cleanup_old_files_not_listed:
  "cleanup_old_files self t Absent = (0, Absent)"
  "cleanup_old_files self t Unlistable = (0, Unlistable)"
  by (simp_all add: cleanup_old_files_def os_path_exists_def os_listdir_def)

text \<open>
  C5, as amended. One sweep of a listed folder removes exactly the regular files whose
  age (current time minus modification time) strictly exceeds the retention threshold
  and whose removal succeeds; every other entry stays, in particular every file that is
  not older than the threshold; the count returned is the number of files removed. On
  an empty folder, an absent one, or one that cannot be listed, the sweep returns zero
  and changes nothing.
\<close>

theorem cleanup_old_files_removes_expired:
  "cleanup_old_files self t (Listing es) =
     (length [e\<leftarrow>es. expired self t e \<and> removable e],
      Listing [e\<leftarrow>es. \<not> (expired self t e \<and> removable e)]) \<and>
   cleanup_old_files self t (Listing []) = (0, Listing []) \<and>
   cleanup_old_files self t Absent = (0, Absent) \<and>
   cleanup_old_files self t Unlistable = (0, Unlistable)"
  by (simp add: cleanup_old_files_Listing cleanup_old_files_not_listed)

text \<open>
  The scenario of the specification: retention 30 minutes, one file aged 45 minutes and
  one aged 5 minutes; exactly the older file is removed.
\<close>

theorem cleanup_old_files_removes_expired_witness:
  "cleanup_old_files (FileCleanupService_init 30) 3000
     (Listing [\<lparr>name = ''old.pdf'', is_file = True, mtime = 300, removable = True\<rparr>,
               \<lparr>name = ''new.pdf'', is_file = True, mtime = 2700, removable = True\<rparr>]) =
     (1, Listing [\<lparr>name = ''new.pdf'', is_file = True, mtime = 2700, removable = True\<rparr>])"
  using cleanup_old_files_removes_expired [of "FileCleanupService_init 30" 3000
      "[\<lparr>name = ''old.pdf'', is_file = True, mtime = 300, removable = True\<rparr>,
        \<lparr>name = ''new.pdf'', is_file = True, mtime = 2700, removable = True\<rparr>]"]
  by (simp add: expired_def FileCleanupService_init_def)

text \<open>
  The claim as stated fails where a removal fails: a regular file aged 45 minutes under
  a retention of 30 minutes, whose removal is refused, is still there after the sweep.
\<close>

theorem cleanup_old_files_undeletable_counterexample:
  "expired (FileCleanupService_init 30) 2700
     \<lparr>name = ''old.pdf'', is_file = True, mtime = 0, removable = False\<rparr> \<and>
   cleanup_old_files (FileCleanupService_init 30) 2700
     (Listing [\<lparr>name = ''old.pdf'', is_file = True, mtime = 0, removable = False\<rparr>]) =
     (0, Listing [\<lparr>name = ''old.pdf'', is_file = True, mtime = 0, removable = False\<rparr>])"
  by (simp add: cleanup_old_files_Listing expired_def FileCleanupService_init_def)

text \<open>
  C9. When the removal of one expired file fails, the sweep of the files before it and
  after it goes on as if that file were not there: the count returned is the sum of the
  counts of sweeping the two parts, the file itself stays and is not counted, and the
  sweep returns its count (no exception leaves \<open>cleanup_old_files\<close>).
\<close>

theorem cleanup_old_files_delete_failure_isolated:
  assumes "expired self t e" and "os_remove e = Inl err"
  shows "cleanup_old_files self t (Listing (before @ e # after)) =
     (fst (cleanup_old_files self t (Listing before)) +
        fst (cleanup_old_files self t (Listing after)),
      Listing (entries (snd (cleanup_old_files self t (Listing before))) @ e #
               entries (snd (cleanup_old_files self t (Listing after)))))"
proof -
  from assms(2) have "\<not> removable e"
    by (auto simp add: os_remove_def split: if_splits)
  then show ?thesis
    by (simp add: cleanup_old_files_Listing entries_def)
qed

theorem cleanup_old_files_delete_failure_isolated_witness:
  "cleanup_old_files (FileCleanupService_init 30) 3000
     (Listing [\<lparr>name = ''a.pdf'', is_file = True, mtime = 100, removable = True\<rparr>,
               \<lparr>name = ''locked.pdf'', is_file = True, mtime = 200, removable = False\<rparr>,
               \<lparr>name = ''b.pdf'', is_file = True, mtime = 300, removable = True\<rparr>]) =
     (2, Listing [\<lparr>name = ''locked.pdf'', is_file = True, mtime = 200, removable = False\<rparr>])"
proof -
  let ?e = "\<lparr>name = ''locked.pdf'', is_file = True, mtime = 200, removable = False\<rparr>"
  have old: "expired (FileCleanupService_init 30) 3000 ?e"
    by (simp add: expired_def FileCleanupService_init_def)
  have fails: "os_remove ?e = Inl PermissionError"
    by (simp add: os_remove_def)
  show ?thesis
    using cleanup_old_files_delete_failure_isolated [OF old fails,
        of "[\<lparr>name = ''a.pdf'', is_file = True, mtime = 100, removable = True\<rparr>]"
           "[\<lparr>name = ''b.pdf'', is_file = True, mtime = 300, removable = True\<rparr>]"]
    by (simp add: cleanup_old_files_Listing expired_def FileCleanupService_init_def entries_def)
qed

end
